theory Spec2Isabelle
  imports Complex_Main
begin

section \<open>Data model of bot.py\<close>

text \<open>
  The module keeps its state in globals: the license file \<^verbatim>\<open>credentials.json\<close> (re-read by
  \<^verbatim>\<open>load_licenses\<close> on every request), the dictionary \<^verbatim>\<open>machine_bindings\<close> together with
  the file \<^verbatim>\<open>machine_bindings.json\<close> it is saved to, the dictionary \<^verbatim>\<open>failed_attempts\<close>,
  the set \<^verbatim>\<open>banned_users\<close>, and the configuration value \<^verbatim>\<open>WEBHOOK_URL\<close>.
  A license record is the JSON object \<^verbatim>\<open>{"key": k}\<close>; the store maps a user name to \<open>k\<close>.
  Time stamps are the values of \<^verbatim>\<open>time.time()\<close>, seconds with a fractional part.
\<close>

record penalty_info =
  count :: int
  penalty_end :: real

record state =
  WEBHOOK_URL :: "string option"
  licenses :: "string \<rightharpoonup> string"
  machine_bindings :: "string \<rightharpoonup> string"
  machine_bindings_file :: "string \<rightharpoonup> string"
  failed_attempts :: "string \<rightharpoonup> penalty_info"
  banned_users :: "string set"

text \<open>The JSON body of a request; \<^verbatim>\<open>data.get(f)\<close> is \<open>None\<close> for an absent field.\<close>

record request =
  username :: "string option"
  key :: "string option"
  machine_id :: "string option"

text \<open>
  What one call of \<^verbatim>\<open>verify\<close> observes of the outside world: the clock when the penalty
  is tested (line 138), the clock when a time stamp is used (line 139 or line 177), and
  whether \<^verbatim>\<open>requests.post\<close> raises (a connection error) instead of returning.
\<close>

record call_env =
  time_at_check :: real
  time_at_use :: real
  post_raises :: bool

text \<open>
  One constructor for each response of the two routes:
  \<^item> \<open>BadRequest\<close>: 400, status \<^verbatim>\<open>error\<close>, a field is missing;
  \<^item> \<open>Banned\<close>: 403, status \<^verbatim>\<open>banned\<close>;
  \<^item> \<open>RateLimited n\<close>: 429, status \<^verbatim>\<open>error\<close>, \<^verbatim>\<open>penalty\<close> = \<open>n\<close>;
  \<^item> \<open>Denied r\<close>: 403, status \<^verbatim>\<open>denied\<close>, \<^verbatim>\<open>reason\<close> = \<open>r\<close>;
  \<^item> \<open>Allowed\<close>: 200, status \<^verbatim>\<open>success\<close> (verify) or \<^verbatim>\<open>allowed\<close> (check_status);
  \<^item> \<open>InvalidKey\<close>: 401, status \<^verbatim>\<open>failure\<close>, "Invalid license key.", no penalty field;
  \<^item> \<open>InternalError\<close>: 500, the handler of an exception that leaves the view function.
\<close>

datatype decision =
    BadRequest
  | Banned
  | RateLimited int
  | Denied string
  | Allowed
  | InvalidKey
  | InternalError

definition penalty_thresholds :: "int list" where
  "penalty_thresholds = [2, 3, 5, 10, 12]"

definition max_penalty :: int where
  "max_penalty = last penalty_thresholds"

text \<open>Python's \<^verbatim>\<open>not x\<close> on an optional string: true for \<open>None\<close> and for the empty string.\<close>

definition missing :: "string option \<Rightarrow> bool" where
  "missing x = (case x of None \<Rightarrow> True | Some v \<Rightarrow> v = [])"

text \<open>Python's \<^verbatim>\<open>int(x)\<close> on a float: truncation towards zero.\<close>

definition py_int :: "real \<Rightarrow> int" where
  "py_int x = (if 0 \<le> x then \<lfloor>x\<rfloor> else \<lceil>x\<rceil>)"

section \<open>The verify route\<close>

text \<open>
  \<^verbatim>\<open>if WEBHOOK_URL: requests.post(...)\<close> stands unprotected in the view function: when the
  post raises, the exception leaves \<^verbatim>\<open>verify\<close> and the 500 handler answers.
\<close>

definition notify :: "state \<Rightarrow> call_env \<Rightarrow> decision \<Rightarrow> decision" where
  "notify s env d = (if \<not> missing (WEBHOOK_URL s) \<and> post_raises env then InternalError else d)"

text \<open>
  Lines 158 to 193. In the second branch \<open>1 < attempt_count \<le> 5\<close>, so the index
  \<open>attempt_count - 2\<close> lies in the list.
\<close>

definition failure_handling :: "state \<Rightarrow> string \<Rightarrow> call_env \<Rightarrow> decision \<times> state" where
  "failure_handling s user_name env =
    (let info0 = (case failed_attempts s user_name of
                    None \<Rightarrow> \<lparr>count = 0, penalty_end = 0\<rparr>
                  | Some i \<Rightarrow> i);
         info1 = info0\<lparr>count := count info0 + 1\<rparr>;
         s1 = s\<lparr>failed_attempts := (failed_attempts s)(user_name \<mapsto> info1)\<rparr>;
         attempt_count = count info1
     in if attempt_count > int (length penalty_thresholds) then
          (notify s env Banned,
           s1\<lparr>banned_users := insert user_name (banned_users s1)\<rparr>)
        else if attempt_count > 1 then
          (let penalty_index = attempt_count - 2;
               penalty_duration = penalty_thresholds ! nat penalty_index;
               info2 = info1\<lparr>penalty_end := time_at_use env + real_of_int penalty_duration\<rparr>
           in (notify s env (RateLimited penalty_duration),
               s1\<lparr>failed_attempts := (failed_attempts s1)(user_name \<mapsto> info2)\<rparr>))
        else (notify s env InvalidKey, s1))"

text \<open>
  Lines 136 to 138: the entry of a user who is under penalty at clock reading \<open>now\<close>.
\<close>

definition active_penalty :: "state \<Rightarrow> string \<Rightarrow> real \<Rightarrow> penalty_info option" where
  "active_penalty s user_name now =
    (case failed_attempts s user_name of
       None \<Rightarrow> None
     | Some penalty_info \<Rightarrow>
         if penalty_end penalty_info > now then Some penalty_info else None)"

text \<open>Lines 131 to 156, for a request whose three fields are present.\<close>

definition verify_fields :: "state \<Rightarrow> string \<Rightarrow> string \<Rightarrow> string \<Rightarrow> call_env \<Rightarrow> decision \<times> state" where
  "verify_fields s user_name k m env =
    (if user_name \<in> banned_users s then (Banned, s)
     else
       (case active_penalty s user_name (time_at_check env) of
          Some penalty_info \<Rightarrow>
            (let remaining_time = py_int (penalty_end penalty_info - time_at_use env)
             in (RateLimited remaining_time, s))
        | None \<Rightarrow>
            if licenses s user_name = Some k then
              (case machine_bindings s user_name of
                 None \<Rightarrow>
                   (let mb = (machine_bindings s)(user_name \<mapsto> m)
                    in (Allowed,
                        s\<lparr>machine_bindings := mb, machine_bindings_file := mb,
                          failed_attempts := (failed_attempts s)(user_name := None)\<rparr>))
               | Some bound \<Rightarrow>
                   if bound \<noteq> m then (Denied ''machine mismatch'', s)
                   else (Allowed,
                         s\<lparr>failed_attempts := (failed_attempts s)(user_name := None)\<rparr>))
            else failure_handling s user_name env))"

definition verify :: "state \<Rightarrow> request \<Rightarrow> call_env \<Rightarrow> decision \<times> state" where
  "verify s req env =
    (if missing (username req) \<or> missing (key req) \<or> missing (machine_id req)
     then (BadRequest, s)
     else (case (username req, key req, machine_id req) of
             (Some user_name, Some k, Some m) \<Rightarrow> verify_fields s user_name k m env
           | _ \<Rightarrow> (BadRequest, s)))"

section \<open>The check_status route\<close>

definition check_status :: "state \<Rightarrow> request \<Rightarrow> decision \<times> state" where
  "check_status s req =
    (if missing (username req) \<or> missing (machine_id req) then (BadRequest, s)
     else (case (username req, machine_id req) of
             (Some user_name, Some m) \<Rightarrow>
               if user_name \<in> banned_users s then (Banned, s)
               else if machine_bindings s user_name = Some m then (Allowed, s)
               else (Denied ''machine mismatch or not bound'', s)
           | _ \<Rightarrow> (BadRequest, s)))"

section \<open>Bot commands that change the state of the core\<close>

definition generate_license :: "string \<Rightarrow> string \<Rightarrow> state \<Rightarrow> state" where
  \<comment> \<open>the second argument is the key drawn by \<^verbatim>\<open>generate_license_key\<close>\<close>
  "generate_license u license_key s =
    (if licenses s u \<noteq> None then s else s\<lparr>licenses := (licenses s)(u \<mapsto> license_key)\<rparr>)"

definition delete_license :: "string \<Rightarrow> state \<Rightarrow> state" where
  "delete_license u s =
    (if licenses s u = None then s else s\<lparr>licenses := (licenses s)(u := None)\<rparr>)"

definition update_license :: "string \<Rightarrow> string \<Rightarrow> state \<Rightarrow> state" where
  "update_license u new_key s =
    (if licenses s u = None then s else s\<lparr>licenses := (licenses s)(u \<mapsto> new_key)\<rparr>)"

definition clear_licenses :: "state \<Rightarrow> state" where
  "clear_licenses s = s\<lparr>licenses := Map.empty\<rparr>"

definition reset_penalty :: "string \<Rightarrow> state \<Rightarrow> state" where
  "reset_penalty u s =
    (if failed_attempts s u \<noteq> None
     then s\<lparr>failed_attempts := (failed_attempts s)(u := None)\<rparr> else s)"

definition unban_user :: "string \<Rightarrow> state \<Rightarrow> state" where
  "unban_user u s =
    (if u \<in> banned_users s then s\<lparr>banned_users := banned_users s - {u}\<rparr> else s)"

definition ban_user :: "string \<Rightarrow> state \<Rightarrow> state" where
  "ban_user u s = s\<lparr>banned_users := insert u (banned_users s)\<rparr>"

text \<open>\<^verbatim>\<open>!failed_attempts\<close>: the count shown for a user, none when there is no entry.\<close>

definition fail_count :: "state \<Rightarrow> string \<Rightarrow> int" where
  "fail_count s u = (case failed_attempts s u of None \<Rightarrow> 0 | Some i \<Rightarrow> count i)"

section \<open>Runs of the service\<close>

datatype event =
    Verify request call_env
  | CheckStatus request
  | GenerateLicense string string
  | DeleteLicense string
  | UpdateLicense string string
  | ClearLicenses
  | ResetPenalty string
  | UnbanUser string
  | BanUser string

fun step :: "state \<Rightarrow> event \<Rightarrow> decision option \<times> state" where
  "step s (Verify req env) = (Some (fst (verify s req env)), snd (verify s req env))"
| "step s (CheckStatus req) = (Some (fst (check_status s req)), snd (check_status s req))"
| "step s (GenerateLicense u k) = (None, generate_license u k s)"
| "step s (DeleteLicense u) = (None, delete_license u s)"
| "step s (UpdateLicense u k) = (None, update_license u k s)"
| "step s ClearLicenses = (None, clear_licenses s)"
| "step s (ResetPenalty u) = (None, reset_penalty u s)"
| "step s (UnbanUser u) = (None, unban_user u s)"
| "step s (BanUser u) = (None, ban_user u s)"

fun exec :: "state \<Rightarrow> event list \<Rightarrow> state" where
  "exec s [] = s"
| "exec s (e # es) = exec (snd (step s e)) es"

fun responses :: "state \<Rightarrow> event list \<Rightarrow> decision option list" where
  "responses s [] = []"
| "responses s (e # es) = fst (step s e) # responses (snd (step s e)) es"

text \<open>The process right after start: no penalties, nobody banned, the bindings as on disk.\<close>

definition start_state :: "string option \<Rightarrow> (string \<rightharpoonup> string) \<Rightarrow> (string \<rightharpoonup> string) \<Rightarrow> state" where
  "start_state webhook lic binds =
    \<lparr>WEBHOOK_URL = webhook, licenses = lic, machine_bindings = binds,
     machine_bindings_file = binds, failed_attempts = Map.empty, banned_users = {}\<rparr>"

text \<open>An event is a well-formed call of one of the two routes in the name of user \<open>u\<close>.\<close>

fun calls_as :: "string \<Rightarrow> event \<Rightarrow> bool" where
  "calls_as u (Verify req env) =
     (username req = Some u \<and> \<not> missing (username req) \<and> \<not> missing (key req) \<and>
      \<not> missing (machine_id req))"
| "calls_as u (CheckStatus req) =
     (username req = Some u \<and> \<not> missing (username req) \<and> \<not> missing (machine_id req))"
| "calls_as u _ = False"

text \<open>
  A Verify request of user \<open>u\<close> with all fields present whose key is not the key of
  the user's license in \<open>s\<close> (or the user has no license).
\<close>

definition wrong_key_request :: "state \<Rightarrow> string \<Rightarrow> request \<Rightarrow> bool" where
  "wrong_key_request s u req =
    (username req = Some u \<and> u \<noteq> [] \<and> \<not> missing (key req) \<and> \<not> missing (machine_id req) \<and>
     key req \<noteq> licenses s u)"

text \<open>The post of this call, if one is made, returns.\<close>

definition post_returns :: "state \<Rightarrow> call_env \<Rightarrow> bool" where
  "post_returns s env = (missing (WEBHOOK_URL s) \<or> \<not> post_raises env)"

section \<open>Sample inputs\<close>

definition mk_request :: "string \<Rightarrow> string \<Rightarrow> string \<Rightarrow> request" where
  "mk_request u k m = \<lparr>username = Some u, key = Some k, machine_id = Some m\<rparr>"

definition at_time :: "real \<Rightarrow> call_env" where
  "at_time t = \<lparr>time_at_check = t, time_at_use = t, post_raises = False\<rparr>"

definition post_failing_at :: "real \<Rightarrow> call_env" where
  "post_failing_at t = \<lparr>time_at_check = t, time_at_use = t, post_raises = True\<rparr>"

definition demo_state :: state where
  "demo_state =
    \<lparr>WEBHOOK_URL = Some ''https://hooks.example/ops'',
     licenses = [''alice'' \<mapsto> ''K1'', ''bob'' \<mapsto> ''K2'', ''carol'' \<mapsto> ''K3''],
     machine_bindings = [''alice'' \<mapsto> ''pc-1''],
     machine_bindings_file = [''alice'' \<mapsto> ''pc-1''],
     failed_attempts = [''bob'' \<mapsto> \<lparr>count = 3, penalty_end = 12\<rparr>],
     banned_users = {''mallory''}\<rparr>"

definition fresh_state :: state where
  "fresh_state = start_state None [''bob'' \<mapsto> ''K2''] Map.empty"

definition hooked_state :: state where
  "hooked_state = start_state (Some ''https://hooks.example/ops'') [''bob'' \<mapsto> ''K2''] Map.empty"

definition bob_wrong :: request where
  "bob_wrong = mk_request ''bob'' ''guess'' ''pc-9''"

definition five_failures :: "event list" where
  "five_failures =
    [Verify bob_wrong (at_time 100), Verify bob_wrong (at_time 110),
     Verify bob_wrong (at_time 120), Verify bob_wrong (at_time 130),
     Verify bob_wrong (at_time 140)]"

definition six_failures :: "event list" where
  "six_failures = five_failures @ [Verify bob_wrong (at_time 160)]"

definition two_failures :: "event list" where
  "two_failures = [Verify bob_wrong (at_time 100), Verify bob_wrong (at_time (217 / 2))]"

text \<open>
  A licensed user bound to the machine \<open>pc-1\<close>, two wrong keys sent in her name, and
  her own request with the right key from another machine.
\<close>

definition bound_state :: state where
  "bound_state = start_state None [''alice'' \<mapsto> ''K1''] [''alice'' \<mapsto> ''pc-1'']"

definition alice_wrong :: request where
  "alice_wrong = mk_request ''alice'' ''guess'' ''pc-1''"

definition alice_moved :: request where
  "alice_moved = mk_request ''alice'' ''K1'' ''pc-2''"

definition alice_two_failures :: "event list" where
  "alice_two_failures = [Verify alice_wrong (at_time 100), Verify alice_wrong (at_time 110)]"


section \<open>Basic facts about the two routes\<close>

lemma verify_present:
  "username req = Some u \<Longrightarrow> key req = Some k \<Longrightarrow> machine_id req = Some m \<Longrightarrow>
   u \<noteq> [] \<Longrightarrow> k \<noteq> [] \<Longrightarrow> m \<noteq> [] \<Longrightarrow> verify s req env = verify_fields s u k m env"
  by (simp add: verify_def missing_def)

lemma verify_malformed:
  "missing (username req) \<or> missing (key req) \<or> missing (machine_id req) \<Longrightarrow>
   verify s req env = (BadRequest, s)"
  by (simp add: verify_def)

lemma verify_cases:
  obtains (bad) "verify s req env = (BadRequest, s)"
  | (ok) u k m where "username req = Some u" "key req = Some k" "machine_id req = Some m"
      "u \<noteq> []" "k \<noteq> []" "m \<noteq> []" "verify s req env = verify_fields s u k m env"
proof (cases "missing (username req) \<or> missing (key req) \<or> missing (machine_id req)")
  case True
  then show ?thesis using bad verify_malformed by blast
next
  case False
  then obtain u k m where "username req = Some u" "key req = Some k" "machine_id req = Some m"
      "u \<noteq> []" "k \<noteq> []" "m \<noteq> []"
    by (auto simp: missing_def split: option.splits)
  then show ?thesis using ok verify_present by blast
qed

lemma notify_not_allowed: "d \<noteq> Allowed \<Longrightarrow> notify s env d \<noteq> Allowed"
  by (simp add: notify_def)

lemma notify_returns: "post_returns s env \<Longrightarrow> notify s env d = d"
  by (auto simp: notify_def post_returns_def)

lemma failure_handling_not_allowed: "fst (failure_handling s u env) \<noteq> Allowed"
  by (simp add: failure_handling_def Let_def notify_not_allowed)

lemma failure_handling_banned_mono:
  "banned_users s \<subseteq> banned_users (snd (failure_handling s u env))"
  by (auto simp: failure_handling_def Let_def)

lemma verify_fields_banned_mono:
  "banned_users s \<subseteq> banned_users (snd (verify_fields s u k m env))"
  using failure_handling_banned_mono [of s u env]
  by (auto simp: verify_fields_def Let_def split: option.splits)

lemma verify_banned_mono: "banned_users s \<subseteq> banned_users (snd (verify s req env))"
  by (rule verify_cases [of s req env]) (use verify_fields_banned_mono in auto)

lemma check_status_state: "snd (check_status s req) = s"
  by (auto simp: check_status_def split: option.splits)

lemma step_keeps_ban:
  "u \<in> banned_users s \<Longrightarrow> e \<noteq> UnbanUser u \<Longrightarrow> u \<in> banned_users (snd (step s e))"
  using verify_banned_mono
  by (cases e)
     (auto simp: check_status_state generate_license_def delete_license_def update_license_def
        clear_licenses_def reset_penalty_def unban_user_def ban_user_def)

lemma verify_banned:
  "u \<in> banned_users s \<Longrightarrow> username req = Some u \<Longrightarrow> \<not> missing (username req) \<Longrightarrow>
   \<not> missing (key req) \<Longrightarrow> \<not> missing (machine_id req) \<Longrightarrow> verify s req env = (Banned, s)"
  by (auto simp: verify_def verify_fields_def missing_def split: option.splits)

lemma check_status_banned:
  "u \<in> banned_users s \<Longrightarrow> username req = Some u \<Longrightarrow> \<not> missing (username req) \<Longrightarrow>
   \<not> missing (machine_id req) \<Longrightarrow> check_status s req = (Banned, s)"
  by (auto simp: check_status_def missing_def split: option.splits)

lemma step_banned_response:
  "u \<in> banned_users s \<Longrightarrow> calls_as u e \<Longrightarrow> fst (step s e) = Some Banned"
  by (cases e) (auto simp: verify_banned check_status_banned)

lemma banned_run:
  "u \<in> banned_users s \<Longrightarrow> UnbanUser u \<notin> set evs \<Longrightarrow>
   u \<in> banned_users (exec s evs) \<and>
   (\<forall>(e, d) \<in> set (zip evs (responses s evs)). calls_as u e \<longrightarrow> d = Some Banned)"
proof (induction evs arbitrary: s)
  case Nil
  then show ?case by simp
next
  case (Cons e evs)
  from Cons.prems have keep: "u \<in> banned_users (snd (step s e))"
    by (intro step_keeps_ban) auto
  from Cons.prems have rest: "UnbanUser u \<notin> set evs" by simp
  from Cons.IH [OF keep rest] step_banned_response [OF Cons.prems(1)]
  show ?case by auto
qed

lemma py_int_bounds:
  "0 \<le> x \<Longrightarrow> 0 \<le> py_int x \<and> real_of_int (py_int x) \<le> x \<and> x < real_of_int (py_int x) + 1"
  by (simp add: py_int_def)

lemma failing_call:
  assumes "wrong_key_request s0 u req" and "licenses s = licenses s0"
    and "u \<notin> banned_users s" and "active_penalty s u (time_at_check env) = None"
  shows "verify s req env = failure_handling s u env"
proof -
  from assms(1) obtain k m where "username req = Some u" "u \<noteq> []" "key req = Some k" "k \<noteq> []"
      "machine_id req = Some m" "m \<noteq> []" "licenses s0 u \<noteq> Some k"
    by (auto simp: wrong_key_request_def missing_def split: option.splits)
  then show ?thesis
    using assms(2-4) by (simp add: verify_present verify_fields_def)
qed

lemma first_failure:
  assumes "failed_attempts s u = None" and "post_returns s env"
  shows "failure_handling s u env =
    (InvalidKey, s\<lparr>failed_attempts := (failed_attempts s)(u \<mapsto> \<lparr>count = 1, penalty_end = 0\<rparr>)\<rparr>)"
  using assms by (simp add: failure_handling_def Let_def notify_returns penalty_thresholds_def)

lemma tier_failure:
  assumes "failed_attempts s u = Some \<lparr>count = c, penalty_end = p\<rparr>"
    and "1 \<le> c" and "c \<le> 4" and "post_returns s env"
  shows "failure_handling s u env =
    (RateLimited (penalty_thresholds ! nat (c - 1)),
     s\<lparr>failed_attempts := (failed_attempts s)(u \<mapsto>
          \<lparr>count = c + 1,
           penalty_end = time_at_use env + real_of_int (penalty_thresholds ! nat (c - 1))\<rparr>)\<rparr>)"
  using assms by (simp add: failure_handling_def Let_def notify_returns penalty_thresholds_def)

lemma ban_failure:
  assumes "failed_attempts s u = Some \<lparr>count = c, penalty_end = p\<rparr>"
    and "5 \<le> c" and "post_returns s env"
  shows "failure_handling s u env =
    (Banned,
     s\<lparr>failed_attempts := (failed_attempts s)(u \<mapsto> \<lparr>count = c + 1, penalty_end = p\<rparr>),
       banned_users := insert u (banned_users s)\<rparr>)"
  using assms by (simp add: failure_handling_def Let_def notify_returns penalty_thresholds_def)

lemma expired_penalty:
  "failed_attempts s u = Some \<lparr>count = c, penalty_end = p\<rparr> \<Longrightarrow> p \<le> now \<Longrightarrow>
   active_penalty s u now = None"
  by (simp add: active_penalty_def)

lemma tier_step:
  assumes "wrong_key_request s0 u req" and "licenses s = licenses s0"
    and "WEBHOOK_URL s = WEBHOOK_URL s0" and "post_returns s0 env"
    and "u \<notin> banned_users s"
    and "failed_attempts s u = Some \<lparr>count = c, penalty_end = p\<rparr>"
    and "p \<le> time_at_check env" and "1 \<le> c" and "c \<le> 4"
  shows "verify s req env =
    (RateLimited (penalty_thresholds ! nat (c - 1)),
     s\<lparr>failed_attempts := (failed_attempts s)(u \<mapsto>
          \<lparr>count = c + 1,
           penalty_end = time_at_use env + real_of_int (penalty_thresholds ! nat (c - 1))\<rparr>)\<rparr>)"
proof -
  have pr: "post_returns s env"
    using assms(3,4) by (simp add: post_returns_def)
  have act: "active_penalty s u (time_at_check env) = None"
    using assms(6,7) by (rule expired_penalty)
  have "verify s req env = failure_handling s u env"
    by (rule failing_call [OF assms(1,2,5) act])
  also have "\<dots> = (RateLimited (penalty_thresholds ! nat (c - 1)),
     s\<lparr>failed_attempts := (failed_attempts s)(u \<mapsto>
          \<lparr>count = c + 1,
           penalty_end = time_at_use env + real_of_int (penalty_thresholds ! nat (c - 1))\<rparr>)\<rparr>)"
    by (rule tier_failure [OF assms(6,8,9) pr])
  finally show ?thesis .
qed

lemma ban_step:
  assumes "wrong_key_request s0 u req" and "licenses s = licenses s0"
    and "WEBHOOK_URL s = WEBHOOK_URL s0" and "post_returns s0 env"
    and "u \<notin> banned_users s"
    and "failed_attempts s u = Some \<lparr>count = c, penalty_end = p\<rparr>"
    and "p \<le> time_at_check env" and "5 \<le> c"
  shows "verify s req env =
    (Banned,
     s\<lparr>failed_attempts := (failed_attempts s)(u \<mapsto> \<lparr>count = c + 1, penalty_end = p\<rparr>),
       banned_users := insert u (banned_users s)\<rparr>)"
proof -
  have pr: "post_returns s env"
    using assms(3,4) by (simp add: post_returns_def)
  have act: "active_penalty s u (time_at_check env) = None"
    using assms(6,7) by (rule expired_penalty)
  have "verify s req env = failure_handling s u env"
    by (rule failing_call [OF assms(1,2,5) act])
  also have "\<dots> = (Banned,
     s\<lparr>failed_attempts := (failed_attempts s)(u \<mapsto> \<lparr>count = c + 1, penalty_end = p\<rparr>),
       banned_users := insert u (banned_users s)\<rparr>)"
    by (rule ban_failure [OF assms(6,8) pr])
  finally show ?thesis .
qed

lemma first_step:
  assumes "wrong_key_request s u req" and "post_returns s env"
    and "u \<notin> banned_users s" and "failed_attempts s u = None"
  shows "verify s req env =
    (InvalidKey, s\<lparr>failed_attempts := (failed_attempts s)(u \<mapsto> \<lparr>count = 1, penalty_end = 0\<rparr>)\<rparr>)"
proof -
  have act: "active_penalty s u (time_at_check env) = None"
    using assms(4) by (simp add: active_penalty_def)
  have same: "licenses s = licenses s"
    by (rule refl)
  have "verify s req env = failure_handling s u env"
    by (rule failing_call [OF assms(1) same assms(3) act])
  also have "\<dots> =
    (InvalidKey, s\<lparr>failed_attempts := (failed_attempts s)(u \<mapsto> \<lparr>count = 1, penalty_end = 0\<rparr>)\<rparr>)"
    by (rule first_failure [OF assms(4,2)])
  finally show ?thesis .
qed

lemma new_ban_has_entry:
  assumes "v \<notin> banned_users s" and "v \<in> banned_users (snd (verify_fields s u k m env))"
  shows "\<exists>i. failed_attempts (snd (verify_fields s u k m env)) v = Some i \<and>
             count i > int (length penalty_thresholds)"
  using assms
  by (auto simp: verify_fields_def failure_handling_def Let_def
      split: if_splits option.splits)

section \<open>The claims\<close>

text \<open>
  C2. A user in the ban set gets \<open>Banned\<close> from every well-formed call of verify and of
  check_status, whatever key and machine are sent and whatever the license and binding
  stores hold, and the call changes nothing; this stays so along every run of the
  service in which the user is not unbanned.
\<close>

theorem banned_user_always_rejected:
  assumes "u \<in> banned_users s" and "UnbanUser u \<notin> set evs"
  shows "(\<forall>req env. calls_as u (Verify req env) \<longrightarrow> verify s req env = (Banned, s)) \<and>
         (\<forall>req. calls_as u (CheckStatus req) \<longrightarrow> check_status s req = (Banned, s)) \<and>
         u \<in> banned_users (exec s evs) \<and>
         (\<forall>(e, d) \<in> set (zip evs (responses s evs)). calls_as u e \<longrightarrow> d = Some Banned)"
proof -
  have "verify s req env = (Banned, s)" if "calls_as u (Verify req env)" for req env
    using that assms(1) by (auto simp: verify_banned)
  moreover have "check_status s req = (Banned, s)" if "calls_as u (CheckStatus req)" for req
    using that assms(1) by (auto simp: check_status_banned)
  ultimately show ?thesis
    using banned_run [OF assms] by blast
qed

theorem banned_user_always_rejected_witness:
  "''mallory'' \<in> banned_users demo_state \<and>
   verify demo_state (mk_request ''mallory'' ''K9'' ''pc-3'') (at_time 50) = (Banned, demo_state) \<and>
   check_status demo_state (mk_request ''mallory'' ''K9'' ''pc-3'') = (Banned, demo_state) \<and>
   ''mallory'' \<in> banned_users (exec demo_state [BanUser ''bob'', ResetPenalty ''bob''])"
  using banned_user_always_rejected
    [of "''mallory''" demo_state "[BanUser ''bob'', ResetPenalty ''bob'']"]
  by (simp add: demo_state_def mk_request_def missing_def)

text \<open>
  C8. check_status changes no state on any input. On a request with both fields present
  it answers \<open>Banned\<close> for a user in the ban set, else \<open>Allowed\<close> when the stored binding
  equals the machine sent, else \<open>Denied\<close>. For a user without binding it never answers
  \<open>Allowed\<close>, and it answers \<open>Denied\<close> unless the ban set takes precedence.
\<close>

theorem check_status_pure_read:
  "snd (check_status s req) = s \<and>
   (username req = Some u \<and> u \<noteq> [] \<and> machine_id req = Some m \<and> m \<noteq> [] \<longrightarrow>
      fst (check_status s req) =
        (if u \<in> banned_users s then Banned
         else if machine_bindings s u = Some m then Allowed
         else Denied ''machine mismatch or not bound'')) \<and>
   (username req = Some u \<and> machine_bindings s u = None \<longrightarrow>
      fst (check_status s req) \<noteq> Allowed)"
  by (auto simp: check_status_def missing_def split: option.splits)

theorem check_status_pure_read_witness:
  "snd (check_status demo_state (mk_request ''alice'' [] ''pc-1'')) = demo_state \<and>
   fst (check_status demo_state (mk_request ''alice'' [] ''pc-1'')) = Allowed \<and>
   machine_bindings demo_state ''bob'' = None \<and>
   fst (check_status demo_state (mk_request ''bob'' [] ''pc-1'')) =
     Denied ''machine mismatch or not bound''"
  using check_status_pure_read [of demo_state "mk_request ''alice'' [] ''pc-1''" "''alice''" "''pc-1''"]
    check_status_pure_read [of demo_state "mk_request ''bob'' [] ''pc-1''" "''bob''" "''pc-1''"]
  by (simp add: demo_state_def mk_request_def)

text \<open>
  C5, as the code has it. For a user who is not banned and whose penalty has not ended
  at the clock reading of the test, verify answers \<open>RateLimited\<close> with the remaining time
  cut to whole seconds, \<^verbatim>\<open>int(penalty_end - time.time())\<close>, and changes no state: no
  license or machine check, no new failure. When both clock readings are the same
  instant \<open>now\<close>, the number \<open>r\<close> sent satisfies \<open>0 \<le> r \<le> penalty_end - now < r + 1\<close>.
\<close>

theorem active_penalty_rate_limited:
  assumes "username req = Some u" and "u \<noteq> []"
    and "\<not> missing (key req)" and "\<not> missing (machine_id req)"
    and "u \<notin> banned_users s"
    and "failed_attempts s u = Some info" and "penalty_end info > time_at_check env"
  shows "verify s req env = (RateLimited (py_int (penalty_end info - time_at_use env)), s) \<and>
         (time_at_use env = time_at_check env \<longrightarrow>
            0 \<le> py_int (penalty_end info - time_at_use env) \<and>
            real_of_int (py_int (penalty_end info - time_at_use env))
              \<le> penalty_end info - time_at_check env \<and>
            penalty_end info - time_at_check env
              < real_of_int (py_int (penalty_end info - time_at_use env)) + 1)"
proof -
  from assms obtain k m where km: "key req = Some k" "k \<noteq> []" "machine_id req = Some m" "m \<noteq> []"
    by (auto simp: missing_def split: option.splits)
  have act: "active_penalty s u (time_at_check env) = Some info"
    using assms(6,7) by (simp add: active_penalty_def)
  have "verify s req env = verify_fields s u k m env"
    using assms(1,2) km by (simp add: verify_present)
  also have "\<dots> = (RateLimited (py_int (penalty_end info - time_at_use env)), s)"
    using assms(5) act by (simp add: verify_fields_def)
  finally have first: "verify s req env = (RateLimited (py_int (penalty_end info - time_at_use env)), s)" .
  have second: "0 \<le> py_int (penalty_end info - time_at_use env) \<and>
            real_of_int (py_int (penalty_end info - time_at_use env))
              \<le> penalty_end info - time_at_check env \<and>
            penalty_end info - time_at_check env
              < real_of_int (py_int (penalty_end info - time_at_use env)) + 1"
    if "time_at_use env = time_at_check env"
    using py_int_bounds [of "penalty_end info - time_at_check env"] assms(7) that by simp
  from first second show ?thesis by blast
qed

theorem active_penalty_rate_limited_witness:
  "failed_attempts demo_state ''bob'' = Some \<lparr>count = 3, penalty_end = 12\<rparr> \<and>
   verify demo_state (mk_request ''bob'' ''K2'' ''pc-2'') (at_time (19 / 2)) =
     (RateLimited 2, demo_state)"
  using active_penalty_rate_limited
    [of "mk_request ''bob'' ''K2'' ''pc-2''" "''bob''" demo_state
        "\<lparr>count = 3, penalty_end = 12\<rparr>" "at_time (19 / 2)"]
  by (simp add: demo_state_def mk_request_def at_time_def missing_def py_int_def)

theorem remaining_time_counterexample:
  "failed_attempts (exec fresh_state two_failures) ''bob'' =
     Some \<lparr>count = 2, penalty_end = 221 / 2\<rparr> \<and>
   ''bob'' \<notin> banned_users (exec fresh_state two_failures) \<and>
   fst (verify (exec fresh_state two_failures) bob_wrong (at_time 110)) = RateLimited 0 \<and>
   real_of_int 0 \<noteq> 221 / 2 - time_at_check (at_time 110)"
  by (simp add: fresh_state_def start_state_def two_failures_def bob_wrong_def mk_request_def
      at_time_def verify_def verify_fields_def failure_handling_def active_penalty_def
      notify_def missing_def penalty_thresholds_def py_int_def Let_def)


text \<open>
  C6, as the code has it. When the key matches and the stored binding differs from the
  machine sent, verify changes no state at all, so the penalty tracker is untouched:
  no failure is counted and no penalty is created or modified. The answer is \<open>Denied\<close>
  with reason "machine mismatch" for a user who is neither banned nor under penalty.
  The ban test and the penalty test of lines 131 to 139 come before the license and
  machine checks, so a banned user gets \<open>Banned\<close> and a user under penalty gets
  \<open>RateLimited\<close> for the same request: in the sample run after the theorem the key
  matches and the binding differs, and the answers are \<open>RateLimited 1\<close> and \<open>Banned\<close>.
\<close>

theorem machine_mismatch_denied:
  assumes "username req = Some u" and "key req = Some k" and "machine_id req = Some m"
    and "u \<noteq> []" and "k \<noteq> []" and "m \<noteq> []"
    and "licenses s u = Some k" and "machine_bindings s u = Some bound" and "bound \<noteq> m"
  shows "snd (verify s req env) = s \<and>
         failed_attempts (snd (verify s req env)) = failed_attempts s \<and>
         fail_count (snd (verify s req env)) u = fail_count s u \<and>
         (u \<notin> banned_users s \<and> active_penalty s u (time_at_check env) = None \<longrightarrow>
            fst (verify s req env) = Denied ''machine mismatch'')"
proof -
  have "verify s req env = verify_fields s u k m env"
    using assms(1-6) by (simp add: verify_present)
  moreover have "snd (verify_fields s u k m env) = s"
    using assms(7-9) by (simp add: verify_fields_def Let_def split: option.splits)
  moreover have "fst (verify_fields s u k m env) = Denied ''machine mismatch''"
    if "u \<notin> banned_users s" "active_penalty s u (time_at_check env) = None"
    using assms(7-9) that by (simp add: verify_fields_def)
  ultimately show ?thesis by simp
qed

theorem machine_mismatch_denied_witness:
  "licenses demo_state ''alice'' = Some ''K1'' \<and>
   machine_bindings demo_state ''alice'' = Some ''pc-1'' \<and>
   verify demo_state (mk_request ''alice'' ''K1'' ''pc-2'') (at_time 50) =
     (Denied ''machine mismatch'', demo_state)"
  using machine_mismatch_denied
    [of "mk_request ''alice'' ''K1'' ''pc-2''" "''alice''" "''K1''" "''pc-2''" demo_state
        "''pc-1''" "at_time 50"]
  by (simp add: demo_state_def mk_request_def active_penalty_def prod_eq_iff)

theorem machine_mismatch_counterexample:
  "licenses (exec bound_state alice_two_failures) ''alice'' = Some ''K1'' \<and>
   machine_bindings (exec bound_state alice_two_failures) ''alice'' = Some ''pc-1'' \<and>
   failed_attempts (exec bound_state alice_two_failures) ''alice'' =
     Some \<lparr>count = 2, penalty_end = 112\<rparr> \<and>
   fst (verify (exec bound_state alice_two_failures) alice_moved (at_time 111)) = RateLimited 1 \<and>
   licenses (exec bound_state [BanUser ''alice'']) ''alice'' = Some ''K1'' \<and>
   machine_bindings (exec bound_state [BanUser ''alice'']) ''alice'' = Some ''pc-1'' \<and>
   fst (verify (exec bound_state [BanUser ''alice'']) alice_moved (at_time 111)) = Banned \<and>
   RateLimited 1 \<noteq> Denied ''machine mismatch'' \<and> Banned \<noteq> Denied ''machine mismatch''"
  by (simp add: bound_state_def start_state_def alice_two_failures_def alice_wrong_def
      alice_moved_def mk_request_def at_time_def verify_def verify_fields_def
      failure_handling_def active_penalty_def notify_def missing_def penalty_thresholds_def
      py_int_def ban_user_def Let_def)

text \<open>
  C7. For a user who is neither banned nor under penalty, with the matching key and a
  binding that is absent or equal to the machine sent, verify answers \<open>Allowed\<close> and
  removes the user's penalty entry, whatever count it held, so that the failure count
  shown is zero. The user is then bound to the machine; when there was no binding, the
  new one is stored in the dictionary and the dictionary is written to the bindings file.
  Licenses, the ban set and the entries of other users stay as they were.
\<close>

theorem success_clears_penalty:
  assumes "username req = Some u" and "key req = Some k" and "machine_id req = Some m"
    and "u \<noteq> []" and "k \<noteq> []" and "m \<noteq> []"
    and "u \<notin> banned_users s" and "active_penalty s u (time_at_check env) = None"
    and "licenses s u = Some k"
    and "machine_bindings s u = None \<or> machine_bindings s u = Some m"
  shows "fst (verify s req env) = Allowed \<and>
         failed_attempts (snd (verify s req env)) = (failed_attempts s)(u := None) \<and>
         fail_count (snd (verify s req env)) u = 0 \<and>
         machine_bindings (snd (verify s req env)) = (machine_bindings s)(u \<mapsto> m) \<and>
         (machine_bindings s u = None \<longrightarrow>
            machine_bindings_file (snd (verify s req env)) = (machine_bindings s)(u \<mapsto> m)) \<and>
         (machine_bindings s u \<noteq> None \<longrightarrow>
            machine_bindings_file (snd (verify s req env)) = machine_bindings_file s) \<and>
         licenses (snd (verify s req env)) = licenses s \<and>
         banned_users (snd (verify s req env)) = banned_users s"
proof -
  have eq: "verify s req env = verify_fields s u k m env"
    using assms(1-6) by (simp add: verify_present)
  from assms(10) show ?thesis
  proof
    assume "machine_bindings s u = None"
    then show ?thesis
      unfolding eq using assms(7-9) by (simp add: verify_fields_def Let_def fail_count_def)
  next
    assume b: "machine_bindings s u = Some m"
    then have "(machine_bindings s)(u \<mapsto> m) = machine_bindings s"
      by (simp add: fun_upd_idem)
    with b show ?thesis
      unfolding eq using assms(7-9) by (simp add: verify_fields_def Let_def fail_count_def)
  qed
qed

theorem success_clears_penalty_witness:
  "fail_count demo_state ''bob'' = 3 \<and> machine_bindings demo_state ''bob'' = None \<and>
   fst (verify demo_state (mk_request ''bob'' ''K2'' ''pc-2'') (at_time 20)) = Allowed \<and>
   fail_count (snd (verify demo_state (mk_request ''bob'' ''K2'' ''pc-2'') (at_time 20))) ''bob'' = 0 \<and>
   machine_bindings_file (snd (verify demo_state (mk_request ''bob'' ''K2'' ''pc-2'') (at_time 20)))
     ''bob'' = Some ''pc-2''"
  using success_clears_penalty
    [of "mk_request ''bob'' ''K2'' ''pc-2''" "''bob''" "''K2''" "''pc-2''" demo_state "at_time 20"]
  by (simp add: demo_state_def mk_request_def at_time_def active_penalty_def fail_count_def)

text \<open>
  C10. When a verify call answers \<open>Allowed\<close>, the same request sent again to the state it
  left behind answers \<open>Allowed\<close> again, at any time, and leaves that state as it is.
\<close>

theorem success_idempotent:
  assumes "fst (verify s req env) = Allowed"
  shows "verify (snd (verify s req env)) req env' = (Allowed, snd (verify s req env))"
proof (rule verify_cases [of s req env])
  assume "verify s req env = (BadRequest, s)"
  with assms show ?thesis by simp
next
  fix u k m
  assume wf: "username req = Some u" "key req = Some k" "machine_id req = Some m"
    "u \<noteq> []" "k \<noteq> []" "m \<noteq> []"
    and eq: "verify s req env = verify_fields s u k m env"
  have eq': "verify t req env' = verify_fields t u k m env'" for t
    using wf by (simp add: verify_present)
  from assms eq have "fst (verify_fields s u k m env) = Allowed" by simp
  then have nb: "u \<notin> banned_users s"
    and act: "active_penalty s u (time_at_check env) = None"
    and lic: "licenses s u = Some k"
    and bind: "machine_bindings s u = None \<or> machine_bindings s u = Some m"
    using failure_handling_not_allowed [of s u env]
    by (auto simp: verify_fields_def Let_def split: if_splits option.splits)
  from bind show ?thesis
    unfolding eq eq' using nb act lic
    by (auto simp: verify_fields_def active_penalty_def Let_def)
qed

theorem success_idempotent_witness:
  "fst (verify demo_state (mk_request ''bob'' ''K2'' ''pc-2'') (at_time 20)) = Allowed \<and>
   verify (snd (verify demo_state (mk_request ''bob'' ''K2'' ''pc-2'') (at_time 20)))
       (mk_request ''bob'' ''K2'' ''pc-2'') (at_time 21) =
     (Allowed, snd (verify demo_state (mk_request ''bob'' ''K2'' ''pc-2'') (at_time 20)))"
proof -
  have h: "fst (verify demo_state (mk_request ''bob'' ''K2'' ''pc-2'') (at_time 20)) = Allowed"
    by (simp add: demo_state_def mk_request_def at_time_def verify_def verify_fields_def
        active_penalty_def missing_def Let_def)
  from h success_idempotent [OF h, of "at_time 21"] show ?thesis by simp
qed

text \<open>
  C3. The claim fails on the code: with a webhook configured, a post that raises turns
  the answer of a failed attempt into the 500 response, although the failure has been
  counted (and, on the sixth failure, the user banned) exactly as when the post returns.
\<close>

theorem notification_failure_alters_response:
  "fst (verify hooked_state bob_wrong (at_time 100)) = InvalidKey \<and>
   fst (verify hooked_state bob_wrong (post_failing_at 100)) = InternalError \<and>
   snd (verify hooked_state bob_wrong (post_failing_at 100)) =
     snd (verify hooked_state bob_wrong (at_time 100)) \<and>
   fst (verify (exec hooked_state five_failures) bob_wrong (at_time 160)) = Banned \<and>
   fst (verify (exec hooked_state five_failures) bob_wrong (post_failing_at 160)) = InternalError \<and>
   ''bob'' \<in> banned_users (snd (verify (exec hooked_state five_failures) bob_wrong (post_failing_at 160)))"
  by (simp add: hooked_state_def start_state_def five_failures_def bob_wrong_def mk_request_def
      at_time_def post_failing_at_def verify_def verify_fields_def failure_handling_def
      active_penalty_def notify_def missing_def penalty_thresholds_def Let_def)


text \<open>
  C1, as the code has it. A user with no penalty entry and no ban sends six requests
  with a wrong key, each after the penalty of the one before has ended, and every post
  to the webhook (if one is configured) returns. The answers are: the 401 response
  without penalty, then \<open>RateLimited\<close> 2, 3, 5 and 10, and on the sixth failure \<open>Banned\<close>;
  the user is not in the ban set after five failures and is in it after the sixth, and
  from then on every well-formed verify call of the user answers \<open>Banned\<close>. The last
  tier, 12 seconds, is never the penalty of a response.
\<close>

theorem failure_escalation:
  assumes "u \<notin> banned_users s" and "failed_attempts s u = None"
    and "\<forall>r \<in> set [r1, r2, r3, r4, r5, r6]. wrong_key_request s u r"
    and "\<forall>e \<in> set [e1, e2, e3, e4, e5, e6]. post_returns s e"
    and "0 \<le> time_at_check e2"
    and "time_at_use e2 + 2 \<le> time_at_check e3"
    and "time_at_use e3 + 3 \<le> time_at_check e4"
    and "time_at_use e4 + 5 \<le> time_at_check e5"
    and "time_at_use e5 + 10 \<le> time_at_check e6"
  shows "responses s [Verify r1 e1, Verify r2 e2, Verify r3 e3, Verify r4 e4, Verify r5 e5,
                      Verify r6 e6] =
           [Some InvalidKey, Some (RateLimited 2), Some (RateLimited 3), Some (RateLimited 5),
            Some (RateLimited 10), Some Banned] \<and>
         u \<notin> banned_users
               (exec s [Verify r1 e1, Verify r2 e2, Verify r3 e3, Verify r4 e4, Verify r5 e5]) \<and>
         u \<in> banned_users
               (exec s [Verify r1 e1, Verify r2 e2, Verify r3 e3, Verify r4 e4, Verify r5 e5,
                        Verify r6 e6]) \<and>
         (\<forall>req env. calls_as u (Verify req env) \<longrightarrow>
            fst (verify (exec s [Verify r1 e1, Verify r2 e2, Verify r3 e3, Verify r4 e4,
                                 Verify r5 e5, Verify r6 e6]) req env) = Banned)"
proof -
  define s1 where
    "s1 = s\<lparr>failed_attempts := (failed_attempts s)(u \<mapsto> \<lparr>count = 1, penalty_end = 0\<rparr>)\<rparr>"
  define s2 where
    "s2 = s1\<lparr>failed_attempts := (failed_attempts s1)(u \<mapsto>
             \<lparr>count = 2, penalty_end = time_at_use e2 + 2\<rparr>)\<rparr>"
  define s3 where
    "s3 = s2\<lparr>failed_attempts := (failed_attempts s2)(u \<mapsto>
             \<lparr>count = 3, penalty_end = time_at_use e3 + 3\<rparr>)\<rparr>"
  define s4 where
    "s4 = s3\<lparr>failed_attempts := (failed_attempts s3)(u \<mapsto>
             \<lparr>count = 4, penalty_end = time_at_use e4 + 5\<rparr>)\<rparr>"
  define s5 where
    "s5 = s4\<lparr>failed_attempts := (failed_attempts s4)(u \<mapsto>
             \<lparr>count = 5, penalty_end = time_at_use e5 + 10\<rparr>)\<rparr>"
  define s6 where
    "s6 = s5\<lparr>failed_attempts := (failed_attempts s5)(u \<mapsto>
             \<lparr>count = 6, penalty_end = time_at_use e5 + 10\<rparr>),
           banned_users := insert u (banned_users s5)\<rparr>"
  have w: "wrong_key_request s u r1" "wrong_key_request s u r2" "wrong_key_request s u r3"
    "wrong_key_request s u r4" "wrong_key_request s u r5" "wrong_key_request s u r6"
    using assms(3) by simp_all
  have p: "post_returns s e1" "post_returns s e2" "post_returns s e3"
    "post_returns s e4" "post_returns s e5" "post_returns s e6"
    using assms(4) by simp_all
  have i1: "licenses s1 = licenses s" "WEBHOOK_URL s1 = WEBHOOK_URL s" "u \<notin> banned_users s1"
    "failed_attempts s1 u = Some \<lparr>count = 1, penalty_end = 0\<rparr>"
    using assms(1) by (simp_all add: s1_def)
  have i2: "licenses s2 = licenses s" "WEBHOOK_URL s2 = WEBHOOK_URL s" "u \<notin> banned_users s2"
    "failed_attempts s2 u = Some \<lparr>count = 2, penalty_end = time_at_use e2 + 2\<rparr>"
    using i1 by (simp_all add: s2_def)
  have i3: "licenses s3 = licenses s" "WEBHOOK_URL s3 = WEBHOOK_URL s" "u \<notin> banned_users s3"
    "failed_attempts s3 u = Some \<lparr>count = 3, penalty_end = time_at_use e3 + 3\<rparr>"
    using i2 by (simp_all add: s3_def)
  have i4: "licenses s4 = licenses s" "WEBHOOK_URL s4 = WEBHOOK_URL s" "u \<notin> banned_users s4"
    "failed_attempts s4 u = Some \<lparr>count = 4, penalty_end = time_at_use e4 + 5\<rparr>"
    using i3 by (simp_all add: s4_def)
  have i5: "licenses s5 = licenses s" "WEBHOOK_URL s5 = WEBHOOK_URL s" "u \<notin> banned_users s5"
    "failed_attempts s5 u = Some \<lparr>count = 5, penalty_end = time_at_use e5 + 10\<rparr>"
    using i4 by (simp_all add: s5_def)
  have v1: "verify s r1 e1 = (InvalidKey, s1)"
    using first_step [OF w(1) p(1) assms(1,2)] by (simp add: s1_def)
  have v2: "verify s1 r2 e2 = (RateLimited 2, s2)"
    using tier_step [OF w(2) i1(1,2) p(2) i1(3,4) assms(5)]
    by (simp add: s2_def penalty_thresholds_def)
  have v3: "verify s2 r3 e3 = (RateLimited 3, s3)"
    using tier_step [OF w(3) i2(1,2) p(3) i2(3,4) assms(6)]
    by (simp add: s3_def penalty_thresholds_def)
  have v4: "verify s3 r4 e4 = (RateLimited 5, s4)"
    using tier_step [OF w(4) i3(1,2) p(4) i3(3,4) assms(7)]
    by (simp add: s4_def penalty_thresholds_def)
  have v5: "verify s4 r5 e5 = (RateLimited 10, s5)"
    using tier_step [OF w(5) i4(1,2) p(5) i4(3,4) assms(8)]
    by (simp add: s5_def penalty_thresholds_def)
  have v6: "verify s5 r6 e6 = (Banned, s6)"
    using ban_step [OF w(6) i5(1,2) p(6) i5(3,4) assms(9)]
    by (simp add: s6_def)
  have b6: "u \<in> banned_users s6"
    by (simp add: s6_def)
  have after: "fst (verify s6 req env) = Banned" if "calls_as u (Verify req env)" for req env
    using that b6 by (auto simp: verify_banned)
  let ?five = "[Verify r1 e1, Verify r2 e2, Verify r3 e3, Verify r4 e4, Verify r5 e5]"
  let ?six = "[Verify r1 e1, Verify r2 e2, Verify r3 e3, Verify r4 e4, Verify r5 e5,
               Verify r6 e6]"
  have e5: "exec s ?five = s5"
    by (simp add: v1 v2 v3 v4 v5)
  have e6: "exec s ?six = s6"
    by (simp add: v1 v2 v3 v4 v5 v6)
  have r: "responses s ?six =
      [Some InvalidKey, Some (RateLimited 2), Some (RateLimited 3), Some (RateLimited 5),
       Some (RateLimited 10), Some Banned]"
    by (simp add: v1 v2 v3 v4 v5 v6)
  have "u \<notin> banned_users (exec s ?five)"
    unfolding e5 by (rule i5(3))
  moreover have "u \<in> banned_users (exec s ?six)"
    unfolding e6 by (rule b6)
  moreover have "\<forall>req env. calls_as u (Verify req env) \<longrightarrow>
      fst (verify (exec s ?six) req env) = Banned"
    unfolding e6 using after by blast
  ultimately show ?thesis
    using r by blast
qed

theorem failure_escalation_witness:
  "''bob'' \<notin> banned_users fresh_state \<and> failed_attempts fresh_state ''bob'' = None \<and>
   wrong_key_request fresh_state ''bob'' bob_wrong \<and>
   responses fresh_state
     [Verify bob_wrong (at_time 100), Verify bob_wrong (at_time 110),
      Verify bob_wrong (at_time 120), Verify bob_wrong (at_time 130),
      Verify bob_wrong (at_time 140), Verify bob_wrong (at_time 160)] =
     [Some InvalidKey, Some (RateLimited 2), Some (RateLimited 3), Some (RateLimited 5),
      Some (RateLimited 10), Some Banned]"
  using failure_escalation
    [of "''bob''" fresh_state bob_wrong bob_wrong bob_wrong bob_wrong bob_wrong bob_wrong
        "at_time 100" "at_time 110" "at_time 120" "at_time 130" "at_time 140" "at_time 160"]
  by (simp add: fresh_state_def start_state_def bob_wrong_def mk_request_def at_time_def
      wrong_key_request_def post_returns_def missing_def)

theorem sixth_failure_counterexample:
  "responses fresh_state six_failures =
     [Some InvalidKey, Some (RateLimited 2), Some (RateLimited 3), Some (RateLimited 5),
      Some (RateLimited 10), Some Banned] \<and>
   responses fresh_state six_failures \<noteq>
     [Some InvalidKey, Some (RateLimited 2), Some (RateLimited 3), Some (RateLimited 5),
      Some (RateLimited 10), Some (RateLimited 12)] \<and>
   ''bob'' \<in> banned_users (exec fresh_state six_failures)"
  by (simp add: fresh_state_def start_state_def six_failures_def five_failures_def bob_wrong_def
      mk_request_def at_time_def verify_def verify_fields_def failure_handling_def
      active_penalty_def notify_def missing_def penalty_thresholds_def Let_def)

text \<open>
  C4, as the code has it. The ban set and the penalty tracker are not exclusive: a
  verify call never removes a user from the ban set, and every user it newly bans keeps
  the penalty entry, with a count above the number of tiers. What is exclusive is the
  accumulation: a verify call in the name of a user who is in the ban set changes no
  state, so no failure is counted while the ban lasts.
\<close>

theorem ban_keeps_penalty_entry:
  "banned_users s \<subseteq> banned_users (snd (verify s req env)) \<and>
   (\<forall>v. v \<notin> banned_users s \<and> v \<in> banned_users (snd (verify s req env)) \<longrightarrow>
      (\<exists>i. failed_attempts (snd (verify s req env)) v = Some i \<and>
           count i > int (length penalty_thresholds))) \<and>
   (\<forall>u. username req = Some u \<and> u \<in> banned_users s \<longrightarrow> snd (verify s req env) = s)"
proof -
  have keep: "banned_users s \<subseteq> banned_users (snd (verify s req env))"
    by (rule verify_banned_mono)
  have entry: "\<exists>i. failed_attempts (snd (verify s req env)) v = Some i \<and>
                  count i > int (length penalty_thresholds)"
    if "v \<notin> banned_users s" "v \<in> banned_users (snd (verify s req env))" for v
  proof (rule verify_cases [of s req env])
    assume "verify s req env = (BadRequest, s)"
    with that show ?thesis by simp
  next
    fix u k m
    assume "verify s req env = verify_fields s u k m env"
    with that new_ban_has_entry [of v s u k m env] show ?thesis by simp
  qed
  have frozen: "snd (verify s req env) = s" if "username req = Some u" "u \<in> banned_users s" for u
  proof (cases "missing (username req) \<or> missing (key req) \<or> missing (machine_id req)")
    case True
    then show ?thesis by (simp add: verify_malformed)
  next
    case False
    with that verify_banned [of u s req env] show ?thesis by simp
  qed
  from keep entry frozen show ?thesis by blast
qed

theorem ban_keeps_penalty_entry_witness:
  "''bob'' \<notin> banned_users (exec fresh_state five_failures) \<and>
   ''bob'' \<in> banned_users (snd (verify (exec fresh_state five_failures) bob_wrong (at_time 160))) \<and>
   (\<exists>i. failed_attempts (snd (verify (exec fresh_state five_failures) bob_wrong (at_time 160)))
          ''bob'' = Some i \<and> count i > int (length penalty_thresholds))"
proof -
  have h: "''bob'' \<notin> banned_users (exec fresh_state five_failures) \<and>
      ''bob'' \<in> banned_users (snd (verify (exec fresh_state five_failures) bob_wrong (at_time 160)))"
    by (simp add: fresh_state_def start_state_def five_failures_def bob_wrong_def
        mk_request_def at_time_def verify_def verify_fields_def failure_handling_def
        active_penalty_def notify_def missing_def penalty_thresholds_def Let_def)
  with ban_keeps_penalty_entry [of "exec fresh_state five_failures" bob_wrong "at_time 160"]
  show ?thesis by blast
qed

theorem ban_and_penalty_counterexample:
  "''bob'' \<in> banned_users (exec fresh_state six_failures) \<and>
   failed_attempts (exec fresh_state six_failures) ''bob'' =
     Some \<lparr>count = 6, penalty_end = 150\<rparr>"
  by (simp add: fresh_state_def start_state_def six_failures_def five_failures_def bob_wrong_def
      mk_request_def at_time_def verify_def verify_fields_def failure_handling_def
      active_penalty_def notify_def missing_def penalty_thresholds_def Let_def)

end
